theory Spec2Isabelle
  imports Main
begin

section \<open>Exceptions and outcomes\<close>

text \<open>
  The exceptions that the tracked code can meet.  \<open>OSError\<close> stands for every
  subclass of Python's \<open>OSError\<close> other than the three named ones (an I/O error, a
  \<open>NotADirectoryError\<close>, ...); \<open>Exception\<close> carries the message of whatever a line
  parser or a parser module raises.
\<close>

datatype exn =
    FileNotFoundError
  | PermissionError
  | OSError
  | TimeoutError
  | CancelledError
  | AttributeError
  | Exception string
  | ExceptionGroup "exn list"

section \<open>The file system as the tracker sees it\<close>

text \<open>
  \<open>os.stat_result\<close> compares as the tuple of its ten indexed fields, in this order:
  mode, inode, device, link count, owner, group, size and the three timestamps in whole
  seconds.  Equality of the record is equality of that tuple.
\<close>

record stat_result =
  st_mode :: nat
  st_ino :: nat
  st_dev :: nat
  st_nlink :: nat
  st_uid :: nat
  st_gid :: nat
  st_size :: nat
  st_atime :: nat
  st_mtime :: nat
  st_ctime :: nat

text \<open>
  An underlying file object.  Its content is the text that a reader of the file decodes,
  one character per byte, with \<open>\n\<close> as the only line terminator; \<open>i_seekable\<close> is
  False for a named pipe, \<open>i_readable\<close> says whether opening for reading is permitted.
\<close>

record inode =
  i_mode :: nat
  i_nlink :: nat
  i_uid :: nat
  i_gid :: nat
  i_atime :: nat
  i_mtime :: nat
  i_ctime :: nat
  i_data :: string
  i_seekable :: bool
  i_readable :: bool

text \<open>
  A snapshot of the operating system: \<open>lookup\<close> resolves a path to the identity
  (device, inode number) of the file it names, or fails the way \<open>os.stat\<close> and \<open>open\<close>
  fail; \<open>inodes\<close> holds every file object by identity, also those that no path names
  any more but an open descriptor still refers to.
\<close>

record os_state =
  lookup :: "string \<Rightarrow> exn + (nat \<times> nat)"
  inodes :: "nat \<times> nat \<Rightarrow> inode"

definition stat_of :: "nat \<times> nat \<Rightarrow> inode \<Rightarrow> stat_result" where
  "stat_of ident f =
     \<lparr>st_mode = i_mode f, st_ino = snd ident, st_dev = fst ident, st_nlink = i_nlink f,
      st_uid = i_uid f, st_gid = i_gid f, st_size = length (i_data f),
      st_atime = i_atime f, st_mtime = i_mtime f, st_ctime = i_ctime f\<rparr>"

text \<open>\<open>os.stat(path)\<close>: raises when the path does not resolve.\<close>

definition os_stat :: "os_state \<Rightarrow> string \<Rightarrow> exn + stat_result" where
  "os_stat os path =
     (case lookup os path of
        Inl e \<Rightarrow> Inl e
      | Inr ident \<Rightarrow> Inr (stat_of ident (inodes os ident)))"

text \<open>
  The open file object (\<open>AsyncFile\<close>): the path it was opened with, its descriptor
  number, the identity of the file object behind the descriptor, the read offset and
  whether it has been closed.
\<close>

record handle =
  h_name :: string
  h_fileno :: nat
  h_ident :: "nat \<times> nat"
  h_pos :: nat
  h_closed :: bool

text \<open>\<open>os.stat(fd)\<close>: the descriptor keeps its file object alive, so this succeeds.\<close>

definition os_fstat :: "os_state \<Rightarrow> handle \<Rightarrow> stat_result" where
  "os_fstat os h = stat_of (h_ident h) (inodes os (h_ident h))"

definition seekable :: "os_state \<Rightarrow> handle \<Rightarrow> bool" where
  "seekable os h = i_seekable (inodes os (h_ident h))"

definition tell :: "handle \<Rightarrow> nat" where
  "tell h = h_pos h"

definition seek :: "nat \<Rightarrow> handle \<Rightarrow> handle" where
  "seek off h = h\<lparr>h_pos := off\<rparr>"

text \<open>\<open>seek(0, os.SEEK_END)\<close>\<close>

definition seek_end :: "os_state \<Rightarrow> handle \<Rightarrow> handle" where
  "seek_end os h = h\<lparr>h_pos := length (i_data (inodes os (h_ident h)))\<rparr>"

section \<open>The classifier\<close>

datatype FileState = NOCHANGE | TRUNCATED | DELETED | DIFFERENT

text \<open>
  The decision of \<open>_check_file_state\<close>, as a function of what its system calls return:
  the result of \<open>os.stat(log_io.name)\<close>, the result of \<open>os.stat(log_io.fileno())\<close>,
  \<open>log_io.seekable()\<close> and \<open>log_io.tell()\<close>.  Only \<open>FileNotFoundError\<close> is caught;
  the two stat results are compared whole.
\<close>

definition check_file_state_of ::
  "exn + stat_result \<Rightarrow> stat_result \<Rightarrow> bool \<Rightarrow> nat \<Rightarrow> exn + FileState" where
  "check_file_state_of same_name_file_stat file_stat is_seekable pos =
     (case same_name_file_stat of
        Inl e \<Rightarrow> (if e = FileNotFoundError then Inr DELETED else Inl e)
      | Inr s \<Rightarrow>
          if s = file_stat then
            (if \<not> is_seekable then Inr NOCHANGE
             else if pos > st_size file_stat then Inr TRUNCATED
             else Inr NOCHANGE)
          else Inr DIFFERENT)"

text \<open>\<open>_check_file_state\<close> on a snapshot of the operating system.\<close>

definition check_file_state :: "os_state \<Rightarrow> handle \<Rightarrow> exn + FileState" where
  "check_file_state os log_io =
     check_file_state_of (os_stat os (h_name log_io)) (os_fstat os log_io)
       (seekable os log_io) (tell log_io)"

text \<open>The identity of a file as \<open>os.stat\<close> reports it: the pair (device, inode).\<close>

definition identity :: "stat_result \<Rightarrow> nat \<times> nat" where
  "identity s = (st_dev s, st_ino s)"

text \<open>
  Two stat results of one file object (device 1, inode 5), taken before and after two
  bytes were appended to it.
\<close>

definition stat_before_append :: stat_result where
  "stat_before_append =
     \<lparr>st_mode = 33188, st_ino = 5, st_dev = 1, st_nlink = 1, st_uid = 0, st_gid = 0,
      st_size = 10, st_atime = 100, st_mtime = 100, st_ctime = 100\<rparr>"

definition stat_after_append :: stat_result where
  "stat_after_append = stat_before_append\<lparr>st_size := 12\<rparr>"

section \<open>Line parsers\<close>

text \<open>
  A line parser works on the world \<open>'w\<close> that the parsers of a run share (a list they
  append to, counters, ...).  Calling one with a line either returns or raises, and in
  both cases leaves a world behind.  A coroutine function, when called, only builds the
  coroutine; awaiting the coroutine runs it.
\<close>

type_synonym 'w coroutine = "'w \<Rightarrow> exn option \<times> 'w"

datatype 'w line_parser =
    Function "string \<Rightarrow> 'w \<Rightarrow> exn option \<times> 'w"
  | CoroutineFunction "string \<Rightarrow> 'w coroutine"

definition await :: "'w coroutine \<Rightarrow> 'w \<Rightarrow> exn option \<times> 'w" where
  "await c w = c w"

text \<open>
  Lines 91 to 94 of \<open>track_file\<close>: one parser on one line.  The first equation is
  the branch \<open>asyncio.iscoroutinefunction(line_parser)\<close>.
\<close>

fun call_line_parser :: "'w line_parser \<Rightarrow> string \<Rightarrow> 'w \<Rightarrow> exn option \<times> 'w" where
  "call_line_parser (CoroutineFunction g) line w = await (g line) w"
| "call_line_parser (Function f) line w = f line w"

text \<open>
  Lines 90 to 94: \<open>for line_parser in line_parsers\<close>.  An exception leaves the loop
  at once, with the world as the parsers run so far have left it.
\<close>

fun apply_line_parsers :: "'w line_parser list \<Rightarrow> string \<Rightarrow> 'w \<Rightarrow> exn option \<times> 'w" where
  "apply_line_parsers [] line w = (None, w)"
| "apply_line_parsers (p # ps) line w =
     (case call_line_parser p line w of
        (Some e, w') \<Rightarrow> (Some e, w')
      | (None, w') \<Rightarrow> apply_line_parsers ps line w')"

section \<open>Reading lines\<close>

text \<open>
  \<open>readline\<close> returns the text from the read offset up to and including the next
  \<open>\n\<close>, or up to the end of the data when no \<open>\n\<close> follows, and the empty string
  at the end of the data.
\<close>

fun first_line :: "string \<Rightarrow> string" where
  "first_line [] = []"
| "first_line (c # cs) = (if c = CHR 0x0A then [c] else c # first_line cs)"

definition readline :: "os_state \<Rightarrow> handle \<Rightarrow> string \<times> handle" where
  "readline os h =
     (let line = first_line (drop (h_pos h) (i_data (inodes os (h_ident h))))
      in (line, h\<lparr>h_pos := h_pos h + length line\<rparr>))"

lemma first_line_length: "length (first_line s) \<le> length s"
  by (induction s) auto

lemma first_line_empty: "first_line s = [] \<longleftrightarrow> s = []"
  by (cases s) auto

lemma readline_advances:
  assumes "readline os h = (line, h')" and "line \<noteq> []"
  shows "length (i_data (inodes os (h_ident h'))) - h_pos h'
           < length (i_data (inodes os (h_ident h))) - h_pos h"
proof -
  let ?d = "i_data (inodes os (h_ident h))"
  from assms have l: "line = first_line (drop (h_pos h) ?d)"
    and h': "h' = h\<lparr>h_pos := h_pos h + length line\<rparr>"
    by (auto simp: readline_def Let_def)
  from l assms(2) have "drop (h_pos h) ?d \<noteq> []"
    by (simp add: first_line_empty)
  then have lt: "h_pos h < length ?d" by simp
  from l have "length line \<le> length ?d - h_pos h"
    using first_line_length [of "drop (h_pos h) ?d"] by simp
  with assms(2) lt h' show ?thesis by (cases line) auto
qed

text \<open>
  Lines 89 to 94: \<open>async for line in log_io\<close>, which calls \<open>readline\<close> until it
  returns the empty string, on one snapshot of the operating system.
\<close>

function drain ::
  "os_state \<Rightarrow> 'w line_parser list \<Rightarrow> handle \<Rightarrow> 'w \<Rightarrow> exn option \<times> handle \<times> 'w" where
  "drain os line_parsers log_io w =
     (case readline os log_io of
        (line, log_io') \<Rightarrow>
          if line = [] then (None, log_io', w)
          else (case apply_line_parsers line_parsers line w of
                  (Some e, w') \<Rightarrow> (Some e, log_io', w')
                | (None, w') \<Rightarrow> drain os line_parsers log_io' w'))"
  by pat_completeness auto
termination
  by (relation "measure (\<lambda>(os, ps, h, w). length (i_data (inodes os (h_ident h))) - h_pos h)")
    (auto intro: readline_advances [OF sym])

declare drain.simps [simp del]

section \<open>The process: the parsers' world and the descriptor table\<close>

text \<open>
  \<open>fd_log\<close> records, in order, every descriptor the operating system hands out and
  every descriptor it takes back.  Descriptor numbers are not reused, so that each
  number names one open.
\<close>

datatype fd_event = Opened nat | Closed nat

record 'w proc =
  world :: 'w
  fd_log :: "fd_event list"

text \<open>
  An operation on a file object that is awaited (\<open>open_file\<close>, \<open>aclose\<close>,
  \<open>readline\<close>, ...) is a suspension point: the operation is handed to a worker
  thread and the task waits for the result.  A cancellation of the task is delivered
  there, as \<open>CancelledError\<close> raised by the \<open>await\<close>.  It can arrive before the
  operation has been handed over, which then does not take place, or while the worker
  thread performs it, which then takes effect although its result is lost.
\<close>

datatype delivery = Proceed | CancelBefore | CancelAfter

text \<open>
  \<open>await anyio.open_file(path)\<close>, for reading.  When the cancellation arrives while
  the worker thread opens the file, the descriptor is open and the task never gets the
  file object.
\<close>

definition open_file ::
  "delivery \<Rightarrow> os_state \<Rightarrow> string \<Rightarrow> 'w proc \<Rightarrow> (exn + handle) \<times> 'w proc" where
  "open_file d os path p =
     (if d = CancelBefore then (Inl CancelledError, p)
      else case lookup os path of
        Inl e \<Rightarrow> (Inl (if d = CancelAfter then CancelledError else e), p)
      | Inr ident \<Rightarrow>
          if \<not> i_readable (inodes os ident)
          then (Inl (if d = CancelAfter then CancelledError else PermissionError), p)
          else (if d = CancelAfter then Inl CancelledError
                else Inr \<lparr>h_name = path, h_fileno = length (fd_log p), h_ident = ident,
                           h_pos = 0, h_closed = False\<rparr>,
                p\<lparr>fd_log := fd_log p @ [Opened (length (fd_log p))]\<rparr>))"

text \<open>
  \<open>await log_io.aclose()\<close>.  Closing a file object that is closed already does
  nothing.  When the cancellation arrives before the close has been handed to the worker
  thread, the file object stays open.
\<close>

definition aclose :: "delivery \<Rightarrow> handle \<Rightarrow> 'w proc \<Rightarrow> exn option \<times> handle \<times> 'w proc" where
  "aclose d h p =
     (if d = CancelBefore then (Some CancelledError, h, p)
      else (if d = CancelAfter then Some CancelledError else None,
            if h_closed h then (h, p)
            else (h\<lparr>h_closed := True\<rparr>, p\<lparr>fd_log := fd_log p @ [Closed (h_fileno h)]\<rparr>)))"

section \<open>The single-file tracker\<close>

text \<open>
  This section describes the runs of \<open>track_file\<close> in which no cancellation disturbs
  an operation on the file: a cancellation, if there is one, is that of the deadline and
  arrives while the tracker sleeps between two poll cycles.  (The runs in which a
  cancellation arrives at another suspension point are those of the section on the
  tracker as a task.)

  One pass through the body of \<open>while True\<close> (lines 87 to 110), up to the sleep, on
  the snapshot of the operating system at that moment.  The result is the exception that
  left the body, if any, the file object that \<open>log_io\<close> names afterwards, and the
  process.
\<close>

definition poll_cycle ::
  "os_state \<Rightarrow> string \<Rightarrow> 'w line_parser list \<Rightarrow> handle \<Rightarrow> 'w proc
     \<Rightarrow> exn option \<times> handle \<times> 'w proc" where
  "poll_cycle os log_file line_parsers log_io p =
     (case check_file_state os log_io of
        Inl e \<Rightarrow> (Some e, log_io, p)
      | Inr NOCHANGE \<Rightarrow>
          (case drain os line_parsers log_io (world p) of
             (r, log_io', w') \<Rightarrow> (r, log_io', p\<lparr>world := w'\<rparr>))
      | Inr TRUNCATED \<Rightarrow> (None, seek 0 log_io, p)
      | Inr DIFFERENT \<Rightarrow>
          (case aclose Proceed log_io p of
             (_, closed_io, p1) \<Rightarrow>
               (case open_file Proceed os log_file p1 of
                  (Inl e, p2) \<Rightarrow> (Some e, closed_io, p2)
                | (Inr new_io, p2) \<Rightarrow> (None, new_io, p2)))
      | Inr DELETED \<Rightarrow> (None, log_io, p))"

text \<open>
  How a run is observed.  \<open>Running\<close>: the observation ended while the code was still
  running (the fuel ran out).  \<open>Expired\<close>: the \<open>CancelledError\<close> that the deadline of
  the enclosing \<open>asyncio.timeout\<close> throws into the task.
\<close>

datatype outcome = Returned | Running | Expired | Raised exn

text \<open>
  The loop of lines 86 to 111.  Time is counted in poll cycles: cycle \<open>k\<close> runs on the
  snapshot \<open>env k\<close>, and two cycles are one \<open>poll_delay\<close> apart.  \<open>timeout = Some d\<close>
  says that the deadline falls into the sleep that follows cycle \<open>d\<close>; \<open>None\<close> is no
  deadline.  The fuel is the number of cycles observed.
\<close>

fun poll_loop ::
  "nat \<Rightarrow> nat \<Rightarrow> nat option \<Rightarrow> (nat \<Rightarrow> os_state) \<Rightarrow> string \<Rightarrow> 'w line_parser list
     \<Rightarrow> handle \<Rightarrow> 'w proc \<Rightarrow> outcome \<times> handle \<times> 'w proc" where
  "poll_loop 0 k timeout env log_file line_parsers log_io p = (Running, log_io, p)"
| "poll_loop (Suc n) k timeout env log_file line_parsers log_io p =
     (case poll_cycle (env k) log_file line_parsers log_io p of
        (Some e, log_io', p') \<Rightarrow> (Raised e, log_io', p')
      | (None, log_io', p') \<Rightarrow>
          if timeout = Some k then (Expired, log_io', p')
          else poll_loop n (Suc k) timeout env log_file line_parsers log_io' p')"

text \<open>Lines 81 to 85: open the file and, for \<open>tail\<close>, go to its end.\<close>

definition start_tracking ::
  "os_state \<Rightarrow> string \<Rightarrow> bool \<Rightarrow> 'w proc \<Rightarrow> (exn + handle) \<times> 'w proc" where
  "start_tracking os log_file tail p =
     (case open_file Proceed os log_file p of
        (Inl e, p1) \<Rightarrow> (Inl e, p1)
      | (Inr log_io, p1) \<Rightarrow>
          (if tail \<and> seekable os log_io then (Inr (seek_end os log_io), p1)
           else (Inr log_io, p1)))"

text \<open>
  \<open>track_file\<close>.  The \<open>finally\<close> clause awaits the close of \<open>log_io\<close> on every
  way out of the loop; \<open>asyncio.timeout\<close> turns the cancellation by its own deadline
  into \<open>TimeoutError\<close>.
\<close>

definition track_file ::
  "(nat \<Rightarrow> os_state) \<Rightarrow> string \<Rightarrow> 'w line_parser list \<Rightarrow> bool \<Rightarrow> nat option \<Rightarrow> nat
     \<Rightarrow> 'w proc \<Rightarrow> outcome \<times> 'w proc" where
  "track_file env log_file line_parsers tail timeout fuel p =
     (case start_tracking (env 0) log_file tail p of
        (Inl e, p1) \<Rightarrow> (Raised e, p1)
      | (Inr log_io, p1) \<Rightarrow>
          (case poll_loop fuel 0 timeout env log_file line_parsers log_io p1 of
             (Running, log_io', p2) \<Rightarrow> (Running, p2)
           | (out, log_io', p2) \<Rightarrow>
               (case aclose Proceed log_io' p2 of
                  (_, _, p3) \<Rightarrow> (if out = Expired then Raised TimeoutError else out, p3))))"

section \<open>Example files\<close>

definition regular_file :: "string \<Rightarrow> inode" where
  "regular_file d =
     \<lparr>i_mode = 33188, i_nlink = 1, i_uid = 0, i_gid = 0, i_atime = 0, i_mtime = 0,
      i_ctime = 0, i_data = d, i_seekable = True, i_readable = True\<rparr>"

text \<open>
  A file system with one file: \<open>path\<close> names the file object \<open>ident\<close>, whose content
  is \<open>d\<close>; no other path resolves.
\<close>

definition one_file :: "string \<Rightarrow> nat \<times> nat \<Rightarrow> inode \<Rightarrow> os_state" where
  "one_file path ident f =
     \<lparr>lookup = (\<lambda>q. if q = path then Inr ident else Inl FileNotFoundError),
      inodes = (\<lambda>i. if i = ident then f else regular_file [])\<rparr>"

text \<open>The history of a file system that never changes.\<close>

definition unchanging :: "os_state \<Rightarrow> nat \<Rightarrow> os_state" where
  "unchanging os k = os"

text \<open>The parser that appends each line it is given, as it is given, to a list.\<close>

definition collect :: "string list line_parser" where
  "collect = Function (\<lambda>line w. (None, w @ [line]))"

definition collect_async :: "string list line_parser" where
  "collect_async = CoroutineFunction (\<lambda>line w. (None, w @ [line]))"

section \<open>What delivery of a text means\<close>

text \<open>
  The lines of a text as \<open>readline\<close> cuts them: each line keeps its \<open>\n\<close>, and a last
  line without one is a line too.
\<close>

function lines_of :: "string \<Rightarrow> string list" where
  "lines_of s =
     (if s = [] then [] else first_line s # lines_of (drop (length (first_line s)) s))"
  by pat_completeness auto
termination
proof (relation "measure length")
  show "wf (measure (length :: string \<Rightarrow> nat))" by simp
next
  fix s :: string
  assume "s \<noteq> []"
  then have "first_line s \<noteq> []" by (simp add: first_line_empty)
  with \<open>s \<noteq> []\<close> show "(drop (length (first_line s)) s, s) \<in> measure length"
    by (cases s; cases "first_line s") auto
qed

declare lines_of.simps [simp del]

text \<open>
  Delivering lines: every line, in order, goes through the parsers in their order; the
  world after the last parser of the last line is the result.
\<close>

definition deliver :: "'w line_parser list \<Rightarrow> string list \<Rightarrow> 'w \<Rightarrow> 'w" where
  "deliver line_parsers lines w =
     fold (\<lambda>line w. fold (\<lambda>p w. snd (call_line_parser p line w)) line_parsers w) lines w"

definition never_raises :: "'w line_parser \<Rightarrow> bool" where
  "never_raises p \<longleftrightarrow> (\<forall>line w. fst (call_line_parser p line w) = None)"

text \<open>
  Parsers that make the order of calls visible: each appends its own number and the line
  it was given to a shared list.  The last one raises and leaves the list alone.
\<close>

definition record_call :: "nat \<Rightarrow> (nat \<times> string) list line_parser" where
  "record_call k = Function (\<lambda>line w. (None, w @ [(k, line)]))"

definition record_call_async :: "nat \<Rightarrow> (nat \<times> string) list line_parser" where
  "record_call_async k = CoroutineFunction (\<lambda>line w. (None, w @ [(k, line)]))"

definition failing :: "exn \<Rightarrow> 'w line_parser" where
  "failing e = Function (\<lambda>line w. (Some e, w))"

text \<open>
  A parser that raises on the line \<open>bad\<close> and records every other line under the
  number 0.
\<close>

definition picky :: "(nat \<times> string) list line_parser" where
  "picky = Function (\<lambda>line w.
     if line = ''bad'' then (Some (Exception ''bad line''), w) else (None, w @ [(0, line)]))"

text \<open>
  The parsers of the list all return on this line, each on the world that the parsers
  before it have left.
\<close>

fun all_return :: "'w line_parser list \<Rightarrow> string \<Rightarrow> 'w \<Rightarrow> bool" where
  "all_return [] line w = True"
| "all_return (p # ps) line w =
     (fst (call_line_parser p line w) = None \<and>
      all_return ps line (snd (call_line_parser p line w)))"

text \<open>
  Two histories of the file \<open>a.log\<close>, which holds \<open>x\n\<close> when tracking starts.  In
  the first the file is truncated and \<open>y\n\<close> is written within one poll delay, so that
  no poll cycle sees it empty.  In the second the cycle after the truncation sees the
  empty file, and \<open>y\n\<close> is written before the cycle after that.
\<close>

definition rewritten_within_delay :: "nat \<Rightarrow> os_state" where
  "rewritten_within_delay k =
     one_file ''a.log'' (1, 5) (regular_file (if k = 0 then ''x\<newline>'' else ''y\<newline>''))"

definition truncated_then_written :: "nat \<Rightarrow> os_state" where
  "truncated_then_written k =
     one_file ''a.log'' (1, 5)
       (regular_file (if k = 0 then ''x\<newline>'' else if k = 1 then [] else ''y\<newline>''))"

section \<open>Open descriptors\<close>

text \<open>The descriptors that are open after a sequence of events.\<close>

fun fd_step :: "fd_event \<Rightarrow> nat set \<Rightarrow> nat set" where
  "fd_step (Opened a) fds = insert a fds"
| "fd_step (Closed a) fds = fds - {a}"

definition open_fds :: "fd_event list \<Rightarrow> nat set" where
  "open_fds es = fold fd_step es {}"

section \<open>Loading the parser configurations\<close>

text \<open>
  A parser module, reduced to its attributes that hold a configuration: the dictionary
  from log file to line parsers, as the list of its items in order.
\<close>

type_synonym 'w config = "(string \<times> 'w line_parser list) list"











section \<open>The tracker as a task\<close>

text \<open>
  A call of \<open>track_file\<close> runs as a task of the event loop.  It runs without
  interruption from one suspension point to the next; at a suspension point other tasks
  run, and a cancellation of the task is delivered.  This section follows the code of
  \<open>track_file\<close> from suspension point to suspension point.

  Where the task is suspended: at the \<open>open_file\<close> of line 81; at the \<open>seek\<close> of
  line 85; at the \<open>tell\<close> of line 45 (with the size that the stat of the descriptor has
  reported); at the \<open>readline\<close> behind \<open>async for\<close>, line 89; at the \<open>seek\<close> of
  line 99; at the \<open>aclose\<close> of line 104; at the \<open>open_file\<close> of line 105; in the
  \<open>sleep\<close> of line 111, before and after the delay has passed; at the \<open>aclose\<close> of
  the \<open>finally\<close> clause, line 113, with the exception that is on its way out.  A line
  parser is taken to run without suspending.
\<close>

datatype await_point =
    AwOpen
  | AwSeekEnd handle
  | AwTell handle nat
  | AwReadline handle
  | AwSeek0 handle
  | AwClose handle
  | AwReopen handle
  | AwSleep handle
  | AwWake handle
  | AwFinally handle exn
  | Finished exn

text \<open>
  From the top of the loop body to its first suspension point: the two stats of
  \<open>_check_file_state\<close> and what follows from them without waiting.
\<close>

definition enter_cycle :: "os_state \<Rightarrow> handle \<Rightarrow> await_point" where
  "enter_cycle os log_io =
     (case os_stat os (h_name log_io) of
        Inl e \<Rightarrow> if e = FileNotFoundError then AwSleep log_io else AwFinally log_io e
      | Inr s \<Rightarrow>
          if s = os_fstat os log_io then
            (if \<not> seekable os log_io then AwReadline log_io
             else AwTell log_io (st_size (os_fstat os log_io)))
          else AwClose log_io)"

text \<open>The awaited operation completes and the task runs to its next suspension point.\<close>

fun proceed ::
  "os_state \<Rightarrow> bool \<Rightarrow> string \<Rightarrow> 'w line_parser list \<Rightarrow> await_point \<Rightarrow> 'w proc
     \<Rightarrow> await_point \<times> 'w proc" where
  "proceed os tail log_file line_parsers AwOpen p =
     (case open_file Proceed os log_file p of
        (Inl e, p1) \<Rightarrow> (Finished e, p1)
      | (Inr log_io, p1) \<Rightarrow>
          (if tail \<and> seekable os log_io then AwSeekEnd log_io else enter_cycle os log_io, p1))"
| "proceed os tail log_file line_parsers (AwSeekEnd log_io) p =
     (enter_cycle os (seek_end os log_io), p)"
| "proceed os tail log_file line_parsers (AwTell log_io sz) p =
     (if tell log_io > sz then AwSeek0 log_io else AwReadline log_io, p)"
| "proceed os tail log_file line_parsers (AwReadline log_io) p =
     (case readline os log_io of
        (line, log_io') \<Rightarrow>
          if line = [] then (AwSleep log_io', p)
          else (case apply_line_parsers line_parsers line (world p) of
                  (Some e, w') \<Rightarrow> (AwFinally log_io' e, p\<lparr>world := w'\<rparr>)
                | (None, w') \<Rightarrow> (AwReadline log_io', p\<lparr>world := w'\<rparr>)))"
| "proceed os tail log_file line_parsers (AwSeek0 log_io) p = (AwSleep (seek 0 log_io), p)"
| "proceed os tail log_file line_parsers (AwClose log_io) p =
     (case aclose Proceed log_io p of (_, closed_io, p1) \<Rightarrow> (AwReopen closed_io, p1))"
| "proceed os tail log_file line_parsers (AwReopen log_io) p =
     (case open_file Proceed os log_file p of
        (Inl e, p1) \<Rightarrow> (AwFinally log_io e, p1)
      | (Inr new_io, p1) \<Rightarrow> (AwSleep new_io, p1))"
| "proceed os tail log_file line_parsers (AwSleep log_io) p = (AwSleep log_io, p)"
| "proceed os tail log_file line_parsers (AwWake log_io) p = (enter_cycle os log_io, p)"
| "proceed os tail log_file line_parsers (AwFinally log_io e) p =
     (case aclose Proceed log_io p of (_, _, p1) \<Rightarrow> (Finished e, p1))"
| "proceed os tail log_file line_parsers (Finished e) p = (Finished e, p)"

text \<open>
  The cancellation is delivered before the awaited operation has been handed over.
  Inside the \<open>try\<close> the \<open>CancelledError\<close> goes to the \<open>finally\<close> clause; at line 81
  and inside the \<open>finally\<close> clause it ends the task.
\<close>

fun cancel_before ::
  "os_state \<Rightarrow> string \<Rightarrow> await_point \<Rightarrow> 'w proc \<Rightarrow> await_point \<times> 'w proc" where
  "cancel_before os log_file AwOpen p =
     (Finished CancelledError, snd (open_file CancelBefore os log_file p))"
| "cancel_before os log_file (AwSeekEnd log_io) p = (AwFinally log_io CancelledError, p)"
| "cancel_before os log_file (AwTell log_io sz) p = (AwFinally log_io CancelledError, p)"
| "cancel_before os log_file (AwReadline log_io) p = (AwFinally log_io CancelledError, p)"
| "cancel_before os log_file (AwSeek0 log_io) p = (AwFinally log_io CancelledError, p)"
| "cancel_before os log_file (AwClose log_io) p =
     (case aclose CancelBefore log_io p of
        (_, open_io, p1) \<Rightarrow> (AwFinally open_io CancelledError, p1))"
| "cancel_before os log_file (AwReopen log_io) p =
     (AwFinally log_io CancelledError, snd (open_file CancelBefore os log_file p))"
| "cancel_before os log_file (AwSleep log_io) p = (AwFinally log_io CancelledError, p)"
| "cancel_before os log_file (AwWake log_io) p = (AwFinally log_io CancelledError, p)"
| "cancel_before os log_file (AwFinally log_io e) p =
     (case aclose CancelBefore log_io p of (_, _, p1) \<Rightarrow> (Finished CancelledError, p1))"
| "cancel_before os log_file (Finished e) p = (Finished e, p)"

text \<open>
  The cancellation is delivered while the worker thread performs the operation: the
  operation takes effect, its result is lost.
\<close>

fun cancel_after ::
  "os_state \<Rightarrow> string \<Rightarrow> await_point \<Rightarrow> 'w proc \<Rightarrow> await_point \<times> 'w proc" where
  "cancel_after os log_file AwOpen p =
     (Finished CancelledError, snd (open_file CancelAfter os log_file p))"
| "cancel_after os log_file (AwSeekEnd log_io) p =
     (AwFinally (seek_end os log_io) CancelledError, p)"
| "cancel_after os log_file (AwTell log_io sz) p = (AwFinally log_io CancelledError, p)"
| "cancel_after os log_file (AwReadline log_io) p =
     (AwFinally (snd (readline os log_io)) CancelledError, p)"
| "cancel_after os log_file (AwSeek0 log_io) p = (AwFinally (seek 0 log_io) CancelledError, p)"
| "cancel_after os log_file (AwClose log_io) p =
     (case aclose CancelAfter log_io p of
        (_, closed_io, p1) \<Rightarrow> (AwFinally closed_io CancelledError, p1))"
| "cancel_after os log_file (AwReopen log_io) p =
     (AwFinally log_io CancelledError, snd (open_file CancelAfter os log_file p))"
| "cancel_after os log_file (AwSleep log_io) p = (AwFinally log_io CancelledError, p)"
| "cancel_after os log_file (AwWake log_io) p = (AwFinally log_io CancelledError, p)"
| "cancel_after os log_file (AwFinally log_io e) p =
     (case aclose CancelAfter log_io p of (_, _, p1) \<Rightarrow> (Finished CancelledError, p1))"
| "cancel_after os log_file (Finished e) p = (Finished e, p)"

text \<open>The task is resumed at its suspension point.\<close>

fun resume ::
  "delivery \<Rightarrow> os_state \<Rightarrow> bool \<Rightarrow> string \<Rightarrow> 'w line_parser list \<Rightarrow> await_point \<Rightarrow> 'w proc
     \<Rightarrow> await_point \<times> 'w proc" where
  "resume Proceed os tail log_file line_parsers at p =
     proceed os tail log_file line_parsers at p"
| "resume CancelBefore os tail log_file line_parsers at p = cancel_before os log_file at p"
| "resume CancelAfter os tail log_file line_parsers at p = cancel_after os log_file at p"

text \<open>
  One tracker on its own, on one snapshot: it is resumed once for each element of the
  list, with the delivery given.
\<close>

fun run_task ::
  "delivery list \<Rightarrow> os_state \<Rightarrow> bool \<Rightarrow> string \<Rightarrow> 'w line_parser list \<Rightarrow> await_point
     \<Rightarrow> 'w proc \<Rightarrow> await_point \<times> 'w proc" where
  "run_task [] os tail log_file line_parsers at p = (at, p)"
| "run_task (d # ds) os tail log_file line_parsers at p =
     (case resume d os tail log_file line_parsers at p of
        (at', p') \<Rightarrow> run_task ds os tail log_file line_parsers at' p')"

section \<open>The supervisor\<close>

text \<open>
  A task of the \<open>asyncio.TaskGroup\<close> in \<open>track_async\<close>: a call of \<open>track_file\<close>,
  where it is suspended, and whether a cancellation has been requested for it and not
  yet delivered.
\<close>

record 'w task =
  t_file :: string
  t_parsers :: "'w line_parser list"
  t_at :: await_point
  t_cancel :: bool

definition new_task :: "string \<Rightarrow> 'w line_parser list \<Rightarrow> 'w task" where
  "new_task log_file line_parsers =
     \<lparr>t_file = log_file, t_parsers = line_parsers, t_at = AwOpen, t_cancel = False\<rparr>"

fun finished :: "await_point \<Rightarrow> bool" where
  "finished (Finished e) = True"
| "finished at = False"

fun sleeping :: "await_point \<Rightarrow> bool" where
  "sleeping (AwSleep log_io) = True"
| "sleeping at = False"

text \<open>
  A task can be resumed unless it has ended or sleeps; a cancellation wakes a sleeper.
\<close>

definition runnable :: "'w task \<Rightarrow> bool" where
  "runnable t = (\<not> finished (t_at t) \<and> (\<not> sleeping (t_at t) \<or> t_cancel t))"

text \<open>\<open>task.cancel()\<close> on a task that is not done.\<close>

definition request_cancel :: "'w task \<Rightarrow> 'w task" where
  "request_cancel t = (if finished (t_at t) then t else t\<lparr>t_cancel := True\<rparr>)"

text \<open>
  What the event loop does next is not determined by the program: it depends on the
  worker threads.  A schedule says, for each step of the loop, which of the tasks that
  can be resumed is resumed (\<open>c_pick\<close>, counted among those), whether the task group
  still has to wait for its turn to notice that a task has failed (\<open>c_defer\<close>), and
  whether a cancellation that is delivered finds the awaited operation performed
  (\<open>c_after\<close>).
\<close>

record choice =
  c_pick :: nat
  c_defer :: bool
  c_after :: bool

definition runnable_indices :: "'w task list \<Rightarrow> nat list" where
  "runnable_indices ts = filter (\<lambda>i. runnable (ts ! i)) [0..<length ts]"

definition next_task :: "choice \<Rightarrow> 'w task list \<Rightarrow> nat option" where
  "next_task ch ts =
     (if runnable_indices ts = [] then None
      else Some (runnable_indices ts ! (c_pick ch mod length (runnable_indices ts))))"

definition step_task ::
  "choice \<Rightarrow> os_state \<Rightarrow> bool \<Rightarrow> 'w task \<Rightarrow> 'w proc \<Rightarrow> 'w task \<times> 'w proc" where
  "step_task ch os tail t p =
     (case resume (if t_cancel t then (if c_after ch then CancelAfter else CancelBefore)
                   else Proceed)
             os tail (t_file t) (t_parsers t) (t_at t) p of
        (at', p') \<Rightarrow> (t\<lparr>t_at := at', t_cancel := False\<rparr>, p'))"

text \<open>
  What the task group records when a task is done: an exception other than
  \<open>CancelledError\<close> is an error of the group.
\<close>

fun failure :: "await_point \<Rightarrow> exn list" where
  "failure (Finished e) = (if e = CancelledError then [] else [e])"
| "failure at = []"

text \<open>
  The task group notices a failure, once: it cancels every task that is not done.  It
  does so when its callback gets its turn, at the latest when no task can be resumed.
\<close>

definition must_abort :: "choice \<Rightarrow> 'w task list \<Rightarrow> exn list \<Rightarrow> bool \<Rightarrow> bool" where
  "must_abort ch ts es aborting =
     (es \<noteq> [] \<and> \<not> aborting \<and> (\<not> c_defer ch \<or> next_task ch ts = None))"

text \<open>A bound on the number of times a task can still be resumed before it sleeps.\<close>

definition unread :: "os_state \<Rightarrow> handle \<Rightarrow> nat" where
  "unread os h = length (i_data (inodes os (h_ident h))) - h_pos h"

definition content :: "os_state \<Rightarrow> string \<Rightarrow> string" where
  "content os path =
     (case lookup os path of Inl e \<Rightarrow> [] | Inr ident \<Rightarrow> i_data (inodes os ident))"

fun weight_at :: "os_state \<Rightarrow> string \<Rightarrow> await_point \<Rightarrow> nat" where
  "weight_at os f AwOpen = length (content os f) + 7"
| "weight_at os f (AwSeekEnd h) = unread os h + 6"
| "weight_at os f (AwTell h sz) = unread os h + 5"
| "weight_at os f (AwReadline h) = unread os h + 3"
| "weight_at os f (AwSeek0 h) = 3"
| "weight_at os f (AwClose h) = 4"
| "weight_at os f (AwReopen h) = 3"
| "weight_at os f (AwSleep h) = 2"
| "weight_at os f (AwWake h) = unread os h + 6"
| "weight_at os f (AwFinally h e) = 1"
| "weight_at os f (Finished e) = 0"

definition weight :: "os_state \<Rightarrow> 'w task \<Rightarrow> nat" where
  "weight os t = weight_at os (t_file t) (t_at t)"

lemma enter_cycle_weight: "weight_at os f (enter_cycle os h) \<le> unread os h + 5"
  by (simp add: enter_cycle_def split: sum.splits)

lemma readline_unread:
  "readline os h = (line, h') \<Longrightarrow> line \<noteq> [] \<Longrightarrow> unread os h' < unread os h"
  unfolding unread_def by (rule readline_advances)

lemma proceed_weight:
  assumes "proceed os tail f ps at p = (at', p')" and "\<not> finished at" and "\<not> sleeping at"
  shows "weight_at os f at' < weight_at os f at"
proof (cases at)
  case AwOpen
  show ?thesis
  proof (cases "open_file Proceed os f p")
    case (Pair r p1)
    show ?thesis
    proof (cases r)
      case (Inl e)
      with Pair AwOpen assms(1) show ?thesis by auto
    next
      case (Inr h)
      with Pair have u: "unread os h = length (content os f)"
        by (auto simp: open_file_def unread_def content_def split: sum.splits if_splits)
      from enter_cycle_weight [of os f h] u Pair Inr AwOpen assms(1) show ?thesis
        by (auto split: if_splits)
    qed
  qed
next
  case (AwSeekEnd h)
  have "unread os (seek_end os h) = 0" by (simp add: unread_def seek_end_def)
  with enter_cycle_weight [of os f "seek_end os h"] AwSeekEnd assms(1) show ?thesis by auto
next
  case (AwTell h sz)
  with assms(1) show ?thesis by (auto split: if_splits)
next
  case (AwReadline h)
  obtain line h1 where rl: "readline os h = (line, h1)" by (cases "readline os h")
  show ?thesis
  proof (cases "line = []")
    case True
    with rl AwReadline assms(1) show ?thesis by auto
  next
    case False
    from readline_unread [OF rl False] rl False AwReadline assms(1) show ?thesis
      by (auto split: prod.splits option.splits)
  qed
next
  case (AwWake h)
  with enter_cycle_weight [of os f h] assms(1) show ?thesis by auto
qed (use assms in \<open>auto simp: aclose_def open_file_def split: sum.splits if_splits prod.splits\<close>)

lemma cancel_before_weight:
  "cancel_before os f at p = (at', p') \<Longrightarrow> \<not> finished at \<Longrightarrow>
   weight_at os f at' < weight_at os f at"
  by (cases at) (auto split: prod.splits)

lemma cancel_after_weight:
  "cancel_after os f at p = (at', p') \<Longrightarrow> \<not> finished at \<Longrightarrow>
   weight_at os f at' < weight_at os f at"
  by (cases at) (auto split: prod.splits)

lemma step_task_weight:
  assumes "runnable t" and "step_task ch os tail t p = (t', p')"
  shows "weight os t' < weight os t"
proof -
  obtain at' where r: "resume (if t_cancel t then (if c_after ch then CancelAfter else CancelBefore)
        else Proceed) os tail (t_file t) (t_parsers t) (t_at t) p = (at', p')"
    and t': "t' = t\<lparr>t_at := at', t_cancel := False\<rparr>"
    using assms(2) by (auto simp: step_task_def split: prod.splits)
  from assms(1) have nf: "\<not> finished (t_at t)" and ns: "\<not> sleeping (t_at t) \<or> t_cancel t"
    by (simp_all add: runnable_def)
  have "weight_at os (t_file t) at' < weight_at os (t_file t) (t_at t)"
  proof (cases "t_cancel t")
    case True
    with r nf show ?thesis
      by (cases "c_after ch") (auto intro: cancel_before_weight cancel_after_weight)
  next
    case False
    with r nf ns show ?thesis by (auto intro: proceed_weight)
  qed
  with t' show ?thesis by (simp add: weight_def)
qed

lemma next_task_Some:
  "next_task ch ts = Some i \<Longrightarrow> i < length ts \<and> runnable (ts ! i)"
proof -
  assume a: "next_task ch ts = Some i"
  then have ne: "runnable_indices ts \<noteq> []"
    and i: "i = runnable_indices ts ! (c_pick ch mod length (runnable_indices ts))"
    by (auto simp: next_task_def split: if_splits)
  from ne have "c_pick ch mod length (runnable_indices ts) < length (runnable_indices ts)"
    by simp
  then have "i \<in> set (runnable_indices ts)" unfolding i by (rule nth_mem)
  then show ?thesis by (simp add: runnable_indices_def)
qed

lemma sum_list_update_less:
  "i < length ts \<Longrightarrow> (f t' :: nat) < f (ts ! i) \<Longrightarrow>
   sum_list (map f (ts[i := t'])) < sum_list (map f ts)"
proof (induction ts arbitrary: i)
  case Nil
  then show ?case by simp
next
  case (Cons a ts)
  then show ?case by (cases i) auto
qed

lemma weight_request_cancel: "weight os (request_cancel t) = weight os t"
  by (simp add: request_cancel_def weight_def)

lemma run_steps_step_decreases:
  assumes "next_task ch ts = Some i" and "step_task ch os tail (ts ! i) p = (t', p')"
  shows "sum_list (map (weight os) (ts[i := t'])) < sum_list (map (weight os) ts)"
proof -
  from next_task_Some [OF assms(1)] have i: "i < length ts" "runnable (ts ! i)" by simp_all
  from step_task_weight [OF i(2) assms(2)] have "weight os t' < weight os (ts ! i)" .
  from sum_list_update_less [OF i(1), of "weight os" t', OF this] show ?thesis .
qed

text \<open>
  The event loop on one snapshot, until no task can be resumed: all tasks that are not
  done sleep.  The state is the step number, the tasks, the errors of the group, whether
  the group has cancelled its tasks, and the process.
\<close>

function run_steps ::
  "(nat \<Rightarrow> choice) \<Rightarrow> os_state \<Rightarrow> bool \<Rightarrow> nat \<Rightarrow> 'w task list \<Rightarrow> exn list \<Rightarrow> bool \<Rightarrow> 'w proc
     \<Rightarrow> nat \<times> 'w task list \<times> exn list \<times> bool \<times> 'w proc" where
  "run_steps sched os tail c ts es aborting p =
     (if must_abort (sched c) ts es aborting
      then run_steps sched os tail (Suc c) (map request_cancel ts) es True p
      else case next_task (sched c) ts of
             None \<Rightarrow> (c, ts, es, aborting, p)
           | Some i \<Rightarrow>
               (case step_task (sched c) os tail (ts ! i) p of
                  (t', p') \<Rightarrow>
                    run_steps sched os tail (Suc c) (ts[i := t'])
                      (es @ failure (t_at t')) aborting p'))"
  by pat_completeness auto
termination
  by (relation "measure (\<lambda>(sched, os, tail, c, ts, es, aborting, p).
      2 * sum_list (map (weight os) ts) + (if es \<noteq> [] \<and> \<not> aborting then 1 else 0))")
    (auto simp: must_abort_def comp_def weight_request_cancel
          dest: run_steps_step_decreases [OF _ sym])

declare run_steps.simps [simp del]

text \<open>The delay of a sleep has passed.\<close>

definition wake :: "'w task \<Rightarrow> 'w task" where
  "wake t = (case t_at t of AwSleep log_io \<Rightarrow> t\<lparr>t_at := AwWake log_io\<rparr> | _ \<Rightarrow> t)"

text \<open>
  The task group under \<open>asyncio.timeout\<close>, lines 132 to 136.  Time is counted in
  rounds, one \<open>poll_delay\<close> apart: in round \<open>k\<close> the sleepers wake and the event loop
  runs on the snapshot \<open>env k\<close> until all tasks sleep or are done.  When a task has
  failed, all tasks are done at the end of the round and the group raises the exception
  group of the failures.  When all tasks are done without a failure, the group is left
  normally.  \<open>timeout = Some d\<close> puts the deadline into the sleep after round \<open>d\<close>:
  the tasks are cancelled and run until they are done.  The fuel is the number of rounds
  observed; the tasks are returned as they are when the group is left or the observation
  ends.
\<close>

fun task_group ::
  "nat \<Rightarrow> nat \<Rightarrow> nat option \<Rightarrow> (nat \<Rightarrow> choice) \<Rightarrow> nat \<Rightarrow> (nat \<Rightarrow> os_state) \<Rightarrow> bool
     \<Rightarrow> 'w task list \<Rightarrow> 'w proc \<Rightarrow> outcome \<times> 'w task list \<times> 'w proc" where
  "task_group 0 k timeout sched c env tail ts p = (Running, ts, p)"
| "task_group (Suc n) k timeout sched c env tail ts p =
     (case run_steps sched (env k) tail c (map wake ts) [] False p of
        (c', ts', es, aborting, p') \<Rightarrow>
          if es \<noteq> [] then (Raised (ExceptionGroup es), ts', p')
          else if list_all (\<lambda>t. finished (t_at t)) ts' then (Returned, ts', p')
          else if timeout = Some k then
            (case run_steps sched (env k) tail c' (map request_cancel ts') [] True p' of
               (c'', ts'', es', aborting', p'') \<Rightarrow>
                 (if es' \<noteq> [] then Raised (ExceptionGroup es') else Expired, ts'', p''))
          else task_group n (Suc k) timeout sched c' env tail ts' p')"

text \<open>
  \<open>track_async\<close>: one task per item of \<open>configs\<close>; a group without tasks is done at
  once.  \<open>asyncio.timeout\<close> turns the cancellation by its deadline into
  \<open>TimeoutError\<close>.
\<close>

definition new_tasks :: "'w config \<Rightarrow> 'w task list" where
  "new_tasks configs = map (\<lambda>(log_file, line_parsers). new_task log_file line_parsers) configs"

definition track_async ::
  "(nat \<Rightarrow> choice) \<Rightarrow> (nat \<Rightarrow> os_state) \<Rightarrow> 'w config \<Rightarrow> bool \<Rightarrow> nat option \<Rightarrow> nat \<Rightarrow> 'w proc
     \<Rightarrow> outcome \<times> 'w proc" where
  "track_async sched env configs tail timeout fuel p =
     (if configs = [] then (Returned, p)
      else case task_group fuel 0 timeout sched 0 env tail (new_tasks configs) p of
             (Expired, ts', p') \<Rightarrow> (Raised TimeoutError, p')
           | (out, ts', p') \<Rightarrow> (out, p'))"

text \<open>\<open>track\<close>: \<open>asyncio.run(track_async(...))\<close>.\<close>

definition track ::
  "(nat \<Rightarrow> choice) \<Rightarrow> (nat \<Rightarrow> os_state) \<Rightarrow> 'w config \<Rightarrow> bool \<Rightarrow> nat option \<Rightarrow> nat \<Rightarrow> 'w proc
     \<Rightarrow> outcome \<times> 'w proc" where
  "track sched env configs tail timeout fuel p =
     track_async sched env configs tail timeout fuel p"


section \<open>Examples for the supervisor\<close>

text \<open>
  The file \<open>a.log\<close> holds the line \<open>x\<close> in the first round and the lines \<open>x\<close>
  and \<open>y\<close> from the second round on: the second line is appended during the sleep after
  the first round; no other path exists.
\<close>

definition appended_file :: "nat \<Rightarrow> os_state" where
  "appended_file k =
     one_file ''a.log'' (1, 5)
       (regular_file (if k = 0 then ''x\<newline>'' else ''x\<newline>y\<newline>''))"

text \<open>A file system without files.\<close>

definition no_files :: "nat \<Rightarrow> os_state" where
  "no_files k = \<lparr>lookup = (\<lambda>q. Inl FileNotFoundError), inodes = (\<lambda>i. regular_file [])\<rparr>"


text \<open>
  The schedule that always resumes the first task that can be resumed, lets the task
  group wait as long as a task can be resumed, and lets a cancellation arrive while the
  worker thread performs the awaited operation.
\<close>

definition first_ready :: "nat \<Rightarrow> choice" where
  "first_ready c = \<lparr>c_pick = 0, c_defer = True, c_after = True\<rparr>"

text \<open>
  The schedule that resumes the second task that can be resumed, if there are two, lets
  the task group notice a failure at once, and lets a cancellation arrive while the
  worker thread performs the awaited operation.
\<close>

definition second_ready :: "nat \<Rightarrow> choice" where
  "second_ready c = \<lparr>c_pick = 1, c_defer = False, c_after = True\<rparr>"

section \<open>Failures and descriptors of a group\<close>



















section \<open>Properties of the classifier\<close>

lemma check_file_state_of_different_identity:
  "identity s \<noteq> identity file_stat \<Longrightarrow>
   check_file_state_of (Inr s) file_stat is_seekable pos = Inr DIFFERENT"
  by (auto simp: check_file_state_of_def identity_def)

text \<open>
  C3.  The claim is that the classifier answers DIFFERENT exactly when the identity of
  the file at the path differs from the identity of the open handle, and that other stat
  data (size, timestamps) of the same file play no part.  The code compares the two stat
  results whole: when the file is appended to between the two \<open>os.stat\<close> calls, the
  identities agree, the sizes differ, and the answer is DIFFERENT all the same.
\<close>

theorem check_file_state_same_identity_different:
  "identity stat_before_append = identity stat_after_append \<and>
   check_file_state_of (Inr stat_before_append) stat_after_append True 10 = Inr DIFFERENT"
  by (simp add: check_file_state_of_def identity_def stat_before_append_def
      stat_after_append_def)

text \<open>
  C4 as stated fails: a \<open>PermissionError\<close> (or any other error that is not
  \<open>FileNotFoundError\<close>) raised by the stat of the path is not turned into DELETED; it
  leaves the classifier as an exception.
\<close>

theorem check_file_state_permission_error_propagates:
  "check_file_state_of (Inl PermissionError) stat_before_append True 0 \<noteq> Inr DELETED \<and>
   check_file_state_of (Inl PermissionError) stat_before_append True 0 = Inl PermissionError"
  by (simp add: check_file_state_of_def)

text \<open>
  C4 amended.  When the stat of the path fails, the classifier answers DELETED exactly
  for \<open>FileNotFoundError\<close>; every other error propagates out of it unchanged.
\<close>

theorem check_file_state_stat_failure:
  "check_file_state_of (Inl e) file_stat is_seekable pos =
     (if e = FileNotFoundError then Inr DELETED else Inl e)"
  by (simp add: check_file_state_of_def)


section \<open>Properties of the tracker on an unchanging file\<close>

lemma apply_line_parsers_never_raise:
  "\<forall>p\<in>set ps. never_raises p \<Longrightarrow>
   apply_line_parsers ps line w = (None, fold (\<lambda>p w. snd (call_line_parser p line w)) ps w)"
proof (induction ps arbitrary: w)
  case Nil
  then show ?case by simp
next
  case (Cons p ps)
  obtain r w' where c: "call_line_parser p line w = (r, w')" by (cases "call_line_parser p line w")
  from Cons.prems have "never_raises p" by simp
  then have "fst (call_line_parser p line w) = None" by (simp add: never_raises_def)
  with c have "r = None" by simp
  with c Cons show ?case by simp
qed

lemma drain_never_raise:
  assumes nr: "\<forall>p\<in>set ps. never_raises p"
  shows "drain os ps h w =
     (None, h\<lparr>h_pos := h_pos h + length (drop (h_pos h) (i_data (inodes os (h_ident h))))\<rparr>,
      deliver ps (lines_of (drop (h_pos h) (i_data (inodes os (h_ident h))))) w)"
  using nr
proof (induction os ps h w rule: drain.induct)
  case (1 os ps h w)
  let ?data = "i_data (inodes os (h_ident h))"
  let ?d = "drop (h_pos h) ?data"
  let ?line = "first_line ?d"
  let ?h' = "h\<lparr>h_pos := h_pos h + length ?line\<rparr>"
  have rl: "readline os h = (?line, ?h')" by (simp add: readline_def Let_def)
  show ?case
  proof (cases "?line = []")
    case True
    then have "?d = []" by (simp add: first_line_empty)
    then show ?thesis using rl True
      by (simp add: drain.simps [of os ps h w] lines_of.simps [of "[]"] deliver_def)
  next
    case False
    let ?w' = "fold (\<lambda>p w. snd (call_line_parser p ?line w)) ps w"
    have ap: "apply_line_parsers ps ?line w = (None, ?w')"
      using "1.prems" by (rule apply_line_parsers_never_raise)
    have ih: "drain os ps ?h' ?w' =
       (None, ?h'\<lparr>h_pos := h_pos ?h' + length (drop (h_pos ?h') (i_data (inodes os (h_ident ?h'))))\<rparr>,
        deliver ps (lines_of (drop (h_pos ?h') (i_data (inodes os (h_ident ?h'))))) ?w')"
      by (rule "1.IH" [OF rl [symmetric] False ap [symmetric] refl "1.prems"])
    have dne: "?d \<noteq> []" using False by (simp add: first_line_empty)
    have len: "length ?line \<le> length ?data - h_pos h"
      using first_line_length [of ?d] by simp
    have dd: "drop (h_pos h + length ?line) ?data = drop (length ?line) ?d"
      by (simp add: add.commute)
    have lo: "lines_of ?d = ?line # lines_of (drop (length ?line) ?d)"
      using dne by (subst lines_of.simps) simp
    have "drain os ps h w = drain os ps ?h' ?w'"
      using rl False ap by (subst drain.simps) simp
    also note ih
    finally show ?thesis using len dd lo by (simp add: deliver_def)
  qed
qed


lemma lines_of_Nil: "lines_of [] = []"
  by (simp add: lines_of.simps)

lemma deliver_Nil: "deliver ps [] w = w"
  by (simp add: deliver_def)

lemma first_line_terminated:
  "CHR 0x0A \<notin> set l \<Longrightarrow> first_line (l @ CHR 0x0A # rest) = l @ [CHR 0x0A]"
  by (induction l) auto

lemma first_line_unterminated: "CHR 0x0A \<notin> set l \<Longrightarrow> first_line l = l"
  by (induction l) auto

lemma lines_of_unterminated:
  "CHR 0x0A \<notin> set l \<Longrightarrow> lines_of l = (if l = [] then [] else [l])"
  by (subst lines_of.simps) (simp add: first_line_unterminated lines_of_Nil)

lemma lines_of_terminated:
  assumes "\<forall>l\<in>set ls. CHR 0x0A \<notin> set l" and "CHR 0x0A \<notin> set rest"
  shows "lines_of (concat (map (\<lambda>l. l @ [CHR 0x0A]) ls) @ rest) =
         map (\<lambda>l. l @ [CHR 0x0A]) ls @ (if rest = [] then [] else [rest])"
  using assms
proof (induction ls)
  case Nil
  then show ?case by (simp add: lines_of_unterminated)
next
  case (Cons l ls)
  let ?tl = "concat (map (\<lambda>l. l @ [CHR 0x0A]) ls) @ rest"
  from Cons.prems have nl: "CHR 0x0A \<notin> set l" by simp
  have fl: "first_line (l @ CHR 0x0A # ?tl) = l @ [CHR 0x0A]"
    using nl by (rule first_line_terminated)
  have "lines_of (l @ CHR 0x0A # ?tl) = (l @ [CHR 0x0A]) # lines_of ?tl"
    by (subst lines_of.simps) (simp add: fl)
  with Cons show ?case by simp
qed

lemma check_file_state_nochange:
  "lookup os (h_name h) = Inr (h_ident h) \<Longrightarrow>
   h_pos h \<le> length (i_data (inodes os (h_ident h))) \<Longrightarrow>
   check_file_state os h = Inr NOCHANGE"
  by (simp add: check_file_state_def check_file_state_of_def os_stat_def os_fstat_def
      seekable_def tell_def stat_of_def)

lemma poll_cycle_static:
  assumes "\<forall>p\<in>set ps. never_raises p"
    and "lookup os (h_name h) = Inr (h_ident h)"
    and "h_pos h \<le> length (i_data (inodes os (h_ident h)))"
  shows "poll_cycle os f ps h p =
     (None, h\<lparr>h_pos := length (i_data (inodes os (h_ident h)))\<rparr>,
      p\<lparr>world := deliver ps (lines_of (drop (h_pos h) (i_data (inodes os (h_ident h))))) (world p)\<rparr>)"
  using assms
  by (simp add: poll_cycle_def check_file_state_nochange drain_never_raise)

lemma poll_loop_static:
  assumes nr: "\<forall>p\<in>set ps. never_raises p" and env: "\<forall>k. env k = os"
  shows "lookup os (h_name h) = Inr (h_ident h) \<Longrightarrow>
    h_pos h \<le> length (i_data (inodes os (h_ident h))) \<Longrightarrow>
    \<exists>out h'. poll_loop (Suc n) k timeout env f ps h p =
      (out, h', p\<lparr>world := deliver ps (lines_of (drop (h_pos h) (i_data (inodes os (h_ident h))))) (world p)\<rparr>)
      \<and> (out = Running \<or> out = Expired)"
proof (induction n arbitrary: k h p)
  case 0
  then show ?case using nr env by (simp add: poll_cycle_static)
next
  case (Suc n)
  let ?data = "i_data (inodes os (h_ident h))"
  let ?h1 = "h\<lparr>h_pos := length ?data\<rparr>"
  let ?p1 = "p\<lparr>world := deliver ps (lines_of (drop (h_pos h) ?data)) (world p)\<rparr>"
  have cyc: "poll_cycle (env k) f ps h p = (None, ?h1, ?p1)"
    using nr env Suc.prems by (simp add: poll_cycle_static)
  have "\<exists>out h'. poll_loop (Suc n) (Suc k) timeout env f ps ?h1 ?p1 =
      (out, h', ?p1\<lparr>world := deliver ps (lines_of (drop (h_pos ?h1) (i_data (inodes os (h_ident ?h1))))) (world ?p1)\<rparr>)
      \<and> (out = Running \<or> out = Expired)"
    using Suc.prems by (intro Suc.IH) simp_all
  then obtain out h' where
    "poll_loop (Suc n) (Suc k) timeout env f ps ?h1 ?p1 = (out, h', ?p1)"
    "out = Running \<or> out = Expired"
    by (auto simp: lines_of_Nil deliver_Nil)
  then show ?case
    using cyc by (subst poll_loop.simps(2)) (auto simp del: poll_loop.simps)
qed

lemma track_file_static:
  assumes nr: "\<forall>p\<in>set ps. never_raises p" and env: "\<forall>k. env k = os"
    and lk: "lookup os log_file = Inr ident" and rd: "i_readable (inodes os ident)"
  shows "world (snd (track_file env log_file ps False timeout (Suc n) p)) =
         deliver ps (lines_of (i_data (inodes os ident))) (world p)"
proof -
  let ?h = "\<lparr>h_name = log_file, h_fileno = length (fd_log p), h_ident = ident,
             h_pos = 0, h_closed = False\<rparr>"
  let ?p1 = "p\<lparr>fd_log := fd_log p @ [Opened (length (fd_log p))]\<rparr>"
  have st: "start_tracking (env 0) log_file False p = (Inr ?h, ?p1)"
    using env lk rd by (simp add: start_tracking_def open_file_def)
  obtain out h' where
    pl: "poll_loop (Suc n) 0 timeout env log_file ps ?h ?p1 =
      (out, h', ?p1\<lparr>world := deliver ps (lines_of (drop (h_pos ?h) (i_data (inodes os (h_ident ?h))))) (world ?p1)\<rparr>)"
    and out: "out = Running \<or> out = Expired"
    using poll_loop_static [OF nr env, of ?h n 0 timeout log_file ?p1] lk by auto
  show ?thesis
    using out st pl by (auto simp: track_file_def aclose_def simp del: poll_loop.simps)
qed


lemma deliver_collect: "deliver [collect] ls w = w @ ls"
  by (induction ls arbitrary: w) (simp_all add: deliver_def collect_def)

lemma never_raises_collect: "never_raises collect"
  by (simp add: never_raises_def collect_def)

text \<open>
  C1.  A file holds the complete lines \<open>ls\<close>, each followed by \<open>\n\<close>, when tracking
  starts, and does not change afterwards; it can be opened; no parser raises.  Then
  \<open>track_file\<close> with \<open>tail = False\<close>, observed after one poll cycle or more, with or
  without a deadline, has delivered exactly the lines of the file, each once, in file
  order: the world is the one that results from passing the first line through all
  parsers, then the second, and so on.  For the collecting parser the world is the
  initial list followed by the lines of the file, in order and with nothing else.
\<close>

theorem track_file_delivers_complete_lines:
  assumes "\<forall>k. env k = os"
    and "lookup os log_file = Inr ident"
    and "i_readable (inodes os ident)"
    and "i_data (inodes os ident) = concat (map (\<lambda>l. l @ [CHR 0x0A]) ls)"
    and "\<forall>l\<in>set ls. CHR 0x0A \<notin> set l"
    and "\<forall>p\<in>set line_parsers. never_raises p"
  shows "world (snd (track_file env log_file line_parsers False timeout (Suc n) p)) =
           deliver line_parsers (map (\<lambda>l. l @ [CHR 0x0A]) ls) (world p)
         \<and> world (snd (track_file env log_file [collect] False timeout (Suc n) q)) =
           world q @ map (\<lambda>l. l @ [CHR 0x0A]) ls"
proof -
  have lo: "lines_of (i_data (inodes os ident)) = map (\<lambda>l. l @ [CHR 0x0A]) ls"
    using lines_of_terminated [of ls "[]"] assms(4,5) by simp
  have "world (snd (track_file env log_file line_parsers False timeout (Suc n) p)) =
          deliver line_parsers (lines_of (i_data (inodes os ident))) (world p)"
    using assms(6,1,2,3) by (rule track_file_static)
  moreover have "world (snd (track_file env log_file [collect] False timeout (Suc n) q)) =
          deliver [collect] (lines_of (i_data (inodes os ident))) (world q)"
    using assms(1,2,3) by (intro track_file_static) (simp_all add: never_raises_collect)
  ultimately show ?thesis by (simp add: lo deliver_collect)
qed

theorem track_file_delivers_complete_lines_witness:
  "world (snd (track_file (unchanging (one_file ''a.log'' (1, 5) (regular_file ''a\<newline>b\<newline>'')))
      ''a.log'' [collect, collect_async] False None (Suc 0) \<lparr>world = [], fd_log = []\<rparr>)) =
     [''a\<newline>'', ''a\<newline>'', ''b\<newline>'', ''b\<newline>'']
   \<and> world (snd (track_file (unchanging (one_file ''a.log'' (1, 5) (regular_file ''a\<newline>b\<newline>'')))
      ''a.log'' [collect] False None (Suc 0) \<lparr>world = [], fd_log = []\<rparr>)) =
     [''a\<newline>'', ''b\<newline>'']"
  using track_file_delivers_complete_lines
    [of "unchanging (one_file ''a.log'' (1, 5) (regular_file ''a\<newline>b\<newline>''))"
        "one_file ''a.log'' (1, 5) (regular_file ''a\<newline>b\<newline>'')"
        "''a.log''" "(1, 5)" "[''a'', ''b'']" "[collect, collect_async]" None 0
        "\<lparr>world = [], fd_log = []\<rparr>" "\<lparr>world = [], fd_log = []\<rparr>"]
  by (simp add: unchanging_def one_file_def regular_file_def never_raises_def collect_def
      collect_async_def await_def deliver_def)

text \<open>
  C2 as stated fails on the file \<open>a\nb\<close>: the collecting parser receives the first
  line with its terminator, and it receives the unterminated last line \<open>b\<close> at once,
  while the file still ends without a terminator.
\<close>

theorem track_file_partial_line_counterexample:
  "world (snd (track_file (unchanging (one_file ''a.log'' (1, 5) (regular_file ''a\<newline>b'')))
      ''a.log'' [collect] False None (Suc 0) \<lparr>world = [], fd_log = []\<rparr>)) = [''a\<newline>'', ''b'']
   \<and> world (snd (track_file (unchanging (one_file ''a.log'' (1, 5) (regular_file ''a\<newline>b'')))
      ''a.log'' [collect] False None (Suc 0) \<lparr>world = [], fd_log = []\<rparr>)) \<noteq> [''a'', ''b'']"
proof -
  let ?os = "one_file ''a.log'' (1, 5) (regular_file ''a\<newline>b'')"
  have l: "lines_of ''a\<newline>b'' = [''a\<newline>'', ''b'']"
    using lines_of_terminated [of "[''a'']" "''b''"] by simp
  have "world (snd (track_file (unchanging ?os) ''a.log'' [collect] False None (Suc 0)
          \<lparr>world = [], fd_log = []\<rparr>)) =
        deliver [collect] (lines_of (i_data (inodes ?os (1, 5)))) []"
    using track_file_static [of "[collect]" "unchanging ?os" ?os "''a.log''" "(1, 5)" None 0
        "\<lparr>world = [], fd_log = []\<rparr>"]
    by (simp add: unchanging_def never_raises_collect one_file_def regular_file_def)
  then show ?thesis
    by (simp add: deliver_collect one_file_def regular_file_def l)
qed

text \<open>
  C2 amended.  The tracker passes every line to the parsers as \<open>readline\<close> returns it:
  a terminated line with its \<open>\n\<close>, and at the end of the data a last line without a
  terminator as it stands, without waiting for the terminator.  For a file that holds
  the terminated lines \<open>ls\<close> followed by the unterminated text \<open>rest\<close> and does not
  change, the lines delivered are the lines of \<open>ls\<close>, each with its \<open>\n\<close>, followed
  by \<open>rest\<close> when it is not empty.
\<close>

theorem track_file_delivers_lines_as_read:
  assumes "\<forall>k. env k = os"
    and "lookup os log_file = Inr ident"
    and "i_readable (inodes os ident)"
    and "i_data (inodes os ident) = concat (map (\<lambda>l. l @ [CHR 0x0A]) ls) @ rest"
    and "\<forall>l\<in>set ls. CHR 0x0A \<notin> set l"
    and "CHR 0x0A \<notin> set rest"
    and "\<forall>p\<in>set line_parsers. never_raises p"
  shows "world (snd (track_file env log_file line_parsers False timeout (Suc n) p)) =
           deliver line_parsers
             (map (\<lambda>l. l @ [CHR 0x0A]) ls @ (if rest = [] then [] else [rest])) (world p)"
proof -
  have "lines_of (i_data (inodes os ident)) =
          map (\<lambda>l. l @ [CHR 0x0A]) ls @ (if rest = [] then [] else [rest])"
    using lines_of_terminated [of ls rest] assms(4,5,6) by simp
  moreover have "world (snd (track_file env log_file line_parsers False timeout (Suc n) p)) =
          deliver line_parsers (lines_of (i_data (inodes os ident))) (world p)"
    using assms(7,1,2,3) by (rule track_file_static)
  ultimately show ?thesis by simp
qed

theorem track_file_delivers_lines_as_read_witness:
  "world (snd (track_file (unchanging (one_file ''a.log'' (1, 5) (regular_file ''a\<newline>b'')))
      ''a.log'' [collect] False None (Suc 0) \<lparr>world = [], fd_log = []\<rparr>)) =
     [''a\<newline>'', ''b'']"
  using track_file_delivers_lines_as_read
    [of "unchanging (one_file ''a.log'' (1, 5) (regular_file ''a\<newline>b''))"
        "one_file ''a.log'' (1, 5) (regular_file ''a\<newline>b'')"
        "''a.log''" "(1, 5)" "[''a'']" "''b''" "[collect]" None 0
        "\<lparr>world = [], fd_log = []\<rparr>"]
  by (simp add: unchanging_def one_file_def regular_file_def never_raises_def collect_def
      deliver_def)

section \<open>Evaluating the tracker on concrete files\<close>

lemma lines_of_Cons:
  "lines_of (c # cs) = first_line (c # cs) # lines_of (drop (length (first_line (c # cs))) (c # cs))"
  by (subst lines_of.simps) simp

lemmas tracker_eval =
  track_file_def start_tracking_def open_file_def aclose_def poll_cycle_def
  check_file_state_def check_file_state_of_def os_stat_def os_fstat_def stat_of_def
  seekable_def tell_def seek_def one_file_def regular_file_def unchanging_def
  drain_never_raise never_raises_collect deliver_collect lines_of_Nil lines_of_Cons

section \<open>Calling the line parsers\<close>

lemma apply_line_parsers_append:
  "apply_line_parsers (qs @ ps) line w =
     (case apply_line_parsers qs line w of
        (Some e, w') \<Rightarrow> (Some e, w')
      | (None, w') \<Rightarrow> apply_line_parsers ps line w')"
  by (induction qs arbitrary: w) (auto split: prod.splits option.splits)

lemma apply_line_parsers_all_return:
  "all_return ps line w \<Longrightarrow>
   apply_line_parsers ps line w = (None, fold (\<lambda>p w. snd (call_line_parser p line w)) ps w)"
proof (induction ps arbitrary: w)
  case Nil
  then show ?case by simp
next
  case (Cons p ps)
  obtain r w' where c: "call_line_parser p line w = (r, w')"
    by (cases "call_line_parser p line w")
  with Cons.prems have "r = None" and "all_return ps line w'" by simp_all
  with c Cons.IH [of w'] show ?case by simp
qed

text \<open>
  C8.  For one line, the parsers are called one after the other in the order of the
  list, each once.  As long as the parsers return on this line (each on the world that
  the parsers before it have left; what they would do on other lines does not matter),
  the world after the loop is the one obtained by running them in list order.  A
  coroutine function is called and the coroutine awaited, any other parser is called
  directly, and both kinds take their turn in the same order.  When a parser raises on
  this line, the exception leaves the loop with the world as it is then, and none of the
  parsers after it is called, whatever they are.
\<close>

theorem apply_line_parsers_in_registration_order:
  assumes "all_return qs line w"
  shows "apply_line_parsers qs line w =
           (None, fold (\<lambda>p w. snd (call_line_parser p line w)) qs w)
         \<and> (call_line_parser r line (fold (\<lambda>p w. snd (call_line_parser p line w)) qs w)
               = (Some e, w') \<longrightarrow>
            apply_line_parsers (qs @ r # rs) line w = (Some e, w'))
         \<and> call_line_parser (CoroutineFunction g) line w = await (g line) w
         \<and> call_line_parser (Function f) line w = f line w"
  using apply_line_parsers_all_return [OF assms]
  by (simp add: apply_line_parsers_append)

theorem apply_line_parsers_in_registration_order_witness:
  "apply_line_parsers [picky, record_call_async 1, record_call 2] ''ok'' [] =
     (None, [(0, ''ok''), (1, ''ok''), (2, ''ok'')])
   \<and> apply_line_parsers
       ([picky, record_call_async 1, record_call 2]
          @ failing (Exception ''boom'') # [record_call 3]) ''ok'' [] =
     (Some (Exception ''boom''), [(0, ''ok''), (1, ''ok''), (2, ''ok'')])"
  using apply_line_parsers_in_registration_order
    [where qs = "[picky, record_call_async 1, record_call 2]"
       and r = "failing (Exception ''boom'')" and line = "''ok''" and w = "[]"
       and e = "Exception ''boom''" and w' = "[(0, ''ok''), (1, ''ok''), (2, ''ok'')]"
       and rs = "[record_call 3]"]
  by (simp add: picky_def record_call_def record_call_async_def failing_def await_def)

section \<open>Truncation\<close>

text \<open>
  C5 as stated fails.  The file holds \<open>x\n\<close>; after the first poll cycle it is
  truncated and \<open>y\n\<close> is written before the next cycle.  The read offset (2) is then
  not greater than the size (2), the classifier answers NOCHANGE, and \<open>y\n\<close> is never
  delivered.
\<close>

theorem truncation_unseen_counterexample:
  "world (snd (track_file rewritten_within_delay ''a.log'' [collect] False None
      (Suc (Suc (Suc 0))) \<lparr>world = [], fd_log = []\<rparr>)) = [''x\<newline>'']
   \<and> world (snd (track_file rewritten_within_delay ''a.log'' [collect] False None
      (Suc (Suc (Suc 0))) \<lparr>world = [], fd_log = []\<rparr>)) \<noteq> [''x'', ''y'']
   \<and> world (snd (track_file rewritten_within_delay ''a.log'' [collect] False None
      (Suc (Suc (Suc 0))) \<lparr>world = [], fd_log = []\<rparr>)) \<noteq> [''x\<newline>'', ''y\<newline>'']"
  by (simp add: tracker_eval rewritten_within_delay_def)

lemma truncated_scenario:
  "track_file truncated_then_written ''a.log'' [collect] False None (Suc (Suc (Suc 0)))
      \<lparr>world = [], fd_log = []\<rparr> = (Running, \<lparr>world = [''x\<newline>'', ''y\<newline>''], fd_log = [Opened 0]\<rparr>)"
  by (simp add: tracker_eval truncated_then_written_def)

lemma check_file_state_truncated_iff:
  "check_file_state os log_io = Inr TRUNCATED \<longleftrightarrow>
     os_stat os (h_name log_io) = Inr (os_fstat os log_io) \<and> seekable os log_io
     \<and> tell log_io > st_size (os_fstat os log_io)"
  by (auto simp: check_file_state_def check_file_state_of_def split: sum.splits if_splits)

text \<open>
  C5 amended.  When the classifier answers TRUNCATED, which it does when a poll cycle
  finds the read offset greater than the size of the file, the cycle sets the offset of
  the handle it has to zero and delivers nothing; a later cycle that finds the file
  unchanged delivers the lines of the content the file has then, from offset zero.  For
  the file that holds \<open>x\n\<close>, is seen empty by the next cycle and holds \<open>y\n\<close> at
  the cycle after that, the collecting parser has \<open>x\n\<close> and \<open>y\n\<close>.
\<close>

theorem truncated_seeks_to_zero:
  assumes "check_file_state os log_io = Inr TRUNCATED"
    and "check_file_state os' (seek 0 log_io) = Inr NOCHANGE"
    and "\<forall>p\<in>set line_parsers. never_raises p"
  shows "poll_cycle os log_file line_parsers log_io p = (None, seek 0 log_io, p)
       \<and> poll_cycle os' log_file line_parsers (seek 0 log_io) p =
           (None, log_io\<lparr>h_pos := length (i_data (inodes os' (h_ident log_io)))\<rparr>,
            p\<lparr>world := deliver line_parsers (lines_of (i_data (inodes os' (h_ident log_io))))
                         (world p)\<rparr>)
       \<and> world (snd (track_file truncated_then_written ''a.log'' [collect] False None (Suc (Suc (Suc 0)))
            \<lparr>world = [], fd_log = []\<rparr>)) = [''x\<newline>'', ''y\<newline>'']"
  using assms
  by (simp add: poll_cycle_def drain_never_raise seek_def truncated_scenario)

theorem truncated_seeks_to_zero_witness:
  "poll_cycle (truncated_then_written 1) ''a.log'' [collect]
      \<lparr>h_name = ''a.log'', h_fileno = 0, h_ident = (1, 5), h_pos = 2, h_closed = False\<rparr>
      \<lparr>world = [''x\<newline>''], fd_log = [Opened 0]\<rparr> =
     (None, \<lparr>h_name = ''a.log'', h_fileno = 0, h_ident = (1, 5), h_pos = 0, h_closed = False\<rparr>,
      \<lparr>world = [''x\<newline>''], fd_log = [Opened 0]\<rparr>)
   \<and> poll_cycle (truncated_then_written 2) ''a.log'' [collect]
      \<lparr>h_name = ''a.log'', h_fileno = 0, h_ident = (1, 5), h_pos = 0, h_closed = False\<rparr>
      \<lparr>world = [''x\<newline>''], fd_log = [Opened 0]\<rparr> =
     (None, \<lparr>h_name = ''a.log'', h_fileno = 0, h_ident = (1, 5), h_pos = 2, h_closed = False\<rparr>,
      \<lparr>world = [''x\<newline>'', ''y\<newline>''], fd_log = [Opened 0]\<rparr>)"
proof -
  let ?h = "\<lparr>h_name = ''a.log'', h_fileno = 0, h_ident = (1, 5), h_pos = 2, h_closed = False\<rparr>"
  have t: "check_file_state (truncated_then_written 1) ?h = Inr TRUNCATED"
    by (simp add: check_file_state_def check_file_state_of_def truncated_then_written_def
        one_file_def regular_file_def os_stat_def os_fstat_def seekable_def tell_def stat_of_def)
  have n: "check_file_state (truncated_then_written 2) (seek 0 ?h) = Inr NOCHANGE"
    by (simp add: check_file_state_def check_file_state_of_def truncated_then_written_def
        one_file_def regular_file_def os_stat_def os_fstat_def seekable_def tell_def stat_of_def
        seek_def)
  have r: "\<forall>p\<in>set [collect]. never_raises p"
    by (simp add: never_raises_def collect_def)
  have l: "lines_of ''y\<newline>'' = [''y\<newline>'']"
    using lines_of_terminated [of "[''y'']" "[]"] by simp
  show ?thesis
    using truncated_seeks_to_zero [OF t n r, of "''a.log''" "\<lparr>world = [''x\<newline>''], fd_log = [Opened 0]\<rparr>"]
    by (simp add: seek_def truncated_then_written_def one_file_def regular_file_def l
        deliver_def collect_def)
qed

section \<open>The parser loader and the module search path\<close>








section \<open>The event loop, step by step\<close>

lemma run_steps_abort:
  "must_abort (sched c) ts es aborting \<Longrightarrow>
   run_steps sched os tail c ts es aborting p =
     run_steps sched os tail (Suc c) (map request_cancel ts) es True p"
  by (subst run_steps.simps) simp

lemma run_steps_done:
  "\<not> must_abort (sched c) ts es aborting \<Longrightarrow> next_task (sched c) ts = None \<Longrightarrow>
   run_steps sched os tail c ts es aborting p = (c, ts, es, aborting, p)"
  by (subst run_steps.simps) simp

lemma run_steps_step:
  "\<not> must_abort (sched c) ts es aborting \<Longrightarrow> next_task (sched c) ts = Some i \<Longrightarrow>
   run_steps sched os tail c ts es aborting p =
     run_steps sched os tail (Suc c) (ts[i := fst (step_task (sched c) os tail (ts ! i) p)])
       (es @ failure (t_at (fst (step_task (sched c) os tail (ts ! i) p)))) aborting
       (snd (step_task (sched c) os tail (ts ! i) p))"
  by (subst run_steps.simps) (simp split: prod.splits)

lemmas group_eval =
  run_steps_abort run_steps_done run_steps_step must_abort_def next_task_def
  runnable_indices_def runnable_def step_task_def request_cancel_def wake_def
  new_tasks_def new_task_def enter_cycle_def readline_def
  open_file_def aclose_def os_stat_def os_fstat_def stat_of_def seekable_def tell_def
  seek_def seek_end_def one_file_def regular_file_def unchanging_def collect_def
  track_def track_async_def Let_def




subsection \<open>The failures that a group records\<close>






subsection \<open>After the group has cancelled its tasks\<close>








subsection \<open>The deadline\<close>




subsection \<open>The descriptors of a group\<close>












subsection \<open>A tracker on its way to a failure\<close>





section \<open>The task group\<close>












section \<open>The tracker as a task and the single-file tracker\<close>

text \<open>
  Resumed without a cancellation, the task does what the single-file tracker does: from
  its start to the top of the loop, and from the top of the loop to the sleep or into
  the \<open>finally\<close> clause.
\<close>

lemma run_task_append:
  "run_task (ds @ ds') os tail f ps at p =
     (case run_task ds os tail f ps at p of (at', p') \<Rightarrow> run_task ds' os tail f ps at' p')"
  by (induction ds arbitrary: at p) (auto split: prod.splits)

lemma run_task_Suc:
  "run_task (replicate (Suc n) Proceed) os tail f ps at p =
     (case proceed os tail f ps at p of
        (at', p') \<Rightarrow> run_task (replicate n Proceed) os tail f ps at' p')"
  by simp

lemma task_start_agrees:
  "\<exists>n. run_task (replicate n Proceed) os tail f ps AwOpen p =
     (case start_tracking os f tail p of
        (Inl e, p1) \<Rightarrow> (Finished e, p1)
      | (Inr log_io, p1) \<Rightarrow> (enter_cycle os log_io, p1))"
proof (cases "open_file Proceed os f p")
  case (Pair r p1)
  show ?thesis
  proof (cases r)
    case (Inl e)
    with Pair have "run_task (replicate (Suc 0) Proceed) os tail f ps AwOpen p =
        (case start_tracking os f tail p of
           (Inl e, p1) \<Rightarrow> (Finished e, p1)
         | (Inr log_io, p1) \<Rightarrow> (enter_cycle os log_io, p1))"
      by (simp add: start_tracking_def)
    then show ?thesis by blast
  next
    case (Inr h)
    show ?thesis
    proof (cases "tail \<and> seekable os h")
      case True
      with Pair Inr have "run_task (replicate (Suc (Suc 0)) Proceed) os tail f ps AwOpen p =
          (case start_tracking os f tail p of
             (Inl e, p1) \<Rightarrow> (Finished e, p1)
           | (Inr log_io, p1) \<Rightarrow> (enter_cycle os log_io, p1))"
        by (simp add: start_tracking_def)
      then show ?thesis by blast
    next
      case False
      with Pair Inr have "run_task (replicate (Suc 0) Proceed) os tail f ps AwOpen p =
          (case start_tracking os f tail p of
             (Inl e, p1) \<Rightarrow> (Finished e, p1)
           | (Inr log_io, p1) \<Rightarrow> (enter_cycle os log_io, p1))"
        by (auto simp: start_tracking_def)
      then show ?thesis by blast
    qed
  qed
qed

lemma task_drain_agrees:
  "\<exists>n. run_task (replicate n Proceed) os tail f ps (AwReadline h) (p\<lparr>world := w\<rparr>) =
     (case drain os ps h w of
        (None, h', w') \<Rightarrow> (AwSleep h', p\<lparr>world := w'\<rparr>)
      | (Some e, h', w') \<Rightarrow> (AwFinally h' e, p\<lparr>world := w'\<rparr>))"
proof (induction os ps h w rule: drain.induct)
  case (1 os ps h w)
  obtain line h1 where rl: "readline os h = (line, h1)" by (cases "readline os h")
  show ?case
  proof (cases "line = []")
    case True
    with rl have "run_task (replicate (Suc 0) Proceed) os tail f ps (AwReadline h)
          (p\<lparr>world := w\<rparr>) =
        (case drain os ps h w of
           (None, h', w') \<Rightarrow> (AwSleep h', p\<lparr>world := w'\<rparr>)
         | (Some e, h', w') \<Rightarrow> (AwFinally h' e, p\<lparr>world := w'\<rparr>))"
      by (subst drain.simps) simp
    then show ?thesis by blast
  next
    case False
    obtain r w1 where ap: "apply_line_parsers ps line w = (r, w1)"
      by (cases "apply_line_parsers ps line w")
    show ?thesis
    proof (cases r)
      case (Some e)
      with rl False ap have "run_task (replicate (Suc 0) Proceed) os tail f ps (AwReadline h)
            (p\<lparr>world := w\<rparr>) =
          (case drain os ps h w of
             (None, h', w') \<Rightarrow> (AwSleep h', p\<lparr>world := w'\<rparr>)
           | (Some e, h', w') \<Rightarrow> (AwFinally h' e, p\<lparr>world := w'\<rparr>))"
        by (subst drain.simps) simp
      then show ?thesis by blast
    next
      case None
      from "1.IH" [OF rl [symmetric] False ap [symmetric] None]
      obtain n where n: "run_task (replicate n Proceed) os tail f ps (AwReadline h1)
            (p\<lparr>world := w1\<rparr>) =
          (case drain os ps h1 w1 of
             (None, h', w') \<Rightarrow> (AwSleep h', p\<lparr>world := w'\<rparr>)
           | (Some e, h', w') \<Rightarrow> (AwFinally h' e, p\<lparr>world := w'\<rparr>))"
        by blast
      have d: "drain os ps h w = drain os ps h1 w1"
        using rl False ap None by (subst drain.simps) simp
      from rl False ap None n
      have "run_task (replicate (Suc n) Proceed) os tail f ps (AwReadline h)
            (p\<lparr>world := w\<rparr>) =
          (case drain os ps h w of
             (None, h', w') \<Rightarrow> (AwSleep h', p\<lparr>world := w'\<rparr>)
           | (Some e, h', w') \<Rightarrow> (AwFinally h' e, p\<lparr>world := w'\<rparr>))"
        unfolding d by simp
      then show ?thesis by blast
    qed
  qed
qed

lemma task_cycle_agrees:
  "\<exists>n. run_task (replicate n Proceed) os tail f ps (enter_cycle os h) p =
     (case poll_cycle os f ps h p of
        (None, h', p') \<Rightarrow> (AwSleep h', p')
      | (Some e, h', p') \<Rightarrow> (AwFinally h' e, p'))"
proof -
  let ?rhs = "case poll_cycle os f ps h p of
        (None, h', p') \<Rightarrow> (AwSleep h', p')
      | (Some e, h', p') \<Rightarrow> (AwFinally h' e, p')"
  from task_drain_agrees [where os = os and tail = tail and f = f and ps = ps and h = h
      and p = p and w = "world p"]
  obtain n where n: "run_task (replicate n Proceed) os tail f ps (AwReadline h) p =
      (case drain os ps h (world p) of
         (None, h', w') \<Rightarrow> (AwSleep h', p\<lparr>world := w'\<rparr>)
       | (Some e, h', w') \<Rightarrow> (AwFinally h' e, p\<lparr>world := w'\<rparr>))"
    by auto
  show ?thesis
  proof (cases "os_stat os (h_name h)")
    case (Inl e)
    then have "run_task (replicate 0 Proceed) os tail f ps (enter_cycle os h) p = ?rhs"
      by (simp add: enter_cycle_def poll_cycle_def check_file_state_def
          check_file_state_of_def)
    then show ?thesis by blast
  next
    case (Inr s)
    show ?thesis
    proof (cases "s = os_fstat os h")
      case False
      with Inr have "run_task (replicate (Suc (Suc 0)) Proceed) os tail f ps
          (enter_cycle os h) p = ?rhs"
        by (auto simp: enter_cycle_def poll_cycle_def check_file_state_def
            check_file_state_of_def aclose_def split: prod.splits sum.splits)
      then show ?thesis by blast
    next
      case True
      show ?thesis
      proof (cases "seekable os h")
        case False
        with Inr True n have "run_task (replicate n Proceed) os tail f ps
            (enter_cycle os h) p = ?rhs"
          by (auto simp: enter_cycle_def poll_cycle_def check_file_state_def
              check_file_state_of_def split: prod.splits option.splits)
        then show ?thesis by blast
      next
        case sk: True
        show ?thesis
        proof (cases "tell h > st_size (os_fstat os h)")
          case True
          with Inr \<open>s = os_fstat os h\<close> sk
          have "run_task (replicate (Suc (Suc 0)) Proceed) os tail f ps
              (enter_cycle os h) p = ?rhs"
            by (auto simp: enter_cycle_def poll_cycle_def check_file_state_def
                check_file_state_of_def)
          then show ?thesis by blast
        next
          case False
          with Inr \<open>s = os_fstat os h\<close> sk n
          have "run_task (replicate (Suc n) Proceed) os tail f ps
              (enter_cycle os h) p = ?rhs"
            by (auto simp: enter_cycle_def poll_cycle_def check_file_state_def
                check_file_state_of_def split: prod.splits option.splits)
          then show ?thesis by blast
        qed
      qed
    qed
  qed
qed

section \<open>What the order of the tasks changes\<close>

text \<open>
  With the files of the example above.  When the tracker of \<open>a.log\<close> is resumed as
  long as it can be, it has read its line before the open of \<open>missing.log\<close> fails.
  When two opens fail and the task group gets its turn after both, the exception group
  has two members.  When the open of \<open>missing.log\<close> fails first and the cancellation
  reaches the tracker of \<open>a.log\<close> while the worker thread opens the file, the
  descriptor stays open.
\<close>

lemma sibling_has_read:
  "track_async first_ready appended_file [(''a.log'', [collect]), (''missing.log'', [collect])]
      False None (Suc (Suc (Suc 0))) \<lparr>world = [], fd_log = []\<rparr> =
   (Raised (ExceptionGroup [FileNotFoundError]),
    \<lparr>world = [''x\<newline>''], fd_log = [Opened 0, Closed 0]\<rparr>)"
  by (simp add: group_eval appended_file_def first_ready_def)

lemma two_failures:
  "track_async first_ready no_files [(''a.log'', [collect]), (''missing.log'', [collect])]
      False None (Suc (Suc (Suc 0))) \<lparr>world = [], fd_log = []\<rparr> =
   (Raised (ExceptionGroup [FileNotFoundError, FileNotFoundError]),
    \<lparr>world = [], fd_log = []\<rparr>)"
  by (simp add: group_eval no_files_def first_ready_def)

lemma cancelled_open_leaks:
  "track_async second_ready appended_file
      [(''a.log'', [collect]), (''missing.log'', [collect])]
      False None (Suc (Suc (Suc 0))) \<lparr>world = [], fd_log = []\<rparr> =
   (Raised (ExceptionGroup [FileNotFoundError]), \<lparr>world = [], fd_log = [Opened 0]\<rparr>)"
  by (simp add: group_eval appended_file_def second_ready_def)

section \<open>A failure of one tracker\<close>







section \<open>The deadline\<close>








section \<open>The descriptor of a cancelled tracker\<close>

text \<open>
  C9 fails in the code.  The file \<open>a.log\<close> holds \<open>x\n\<close>, and the parser raises.  The
  tracker opens the file, waits for \<open>tell\<close>, reads the line, and the exception of the
  parser takes it into the \<open>finally\<close> clause, where it waits for \<open>aclose\<close> with the
  descriptor open.  Left alone, it closes the descriptor and ends with the exception of
  the parser.  When a cancellation is due at that point (the deadline has passed while
  the parser ran, or the task group has cancelled the tracker), the \<open>CancelledError\<close>
  is raised by the \<open>await\<close> of line 113 before the close is handed over: the tracker
  ends with the descriptor open.  The same happens when the cancellation is delivered
  while the worker thread performs the \<open>open_file\<close> of line 81, which is outside the
  \<open>try\<close>: the descriptor is opened and nobody closes it.
\<close>

theorem track_file_leaves_descriptor_open:
  "run_task [Proceed, Proceed, Proceed]
      (one_file ''a.log'' (1, 5) (regular_file ''x\<newline>'')) False ''a.log''
      [failing (Exception ''boom'')] AwOpen \<lparr>world = (), fd_log = []\<rparr> =
     (AwFinally \<lparr>h_name = ''a.log'', h_fileno = 0, h_ident = (1, 5), h_pos = 2,
                 h_closed = False\<rparr> (Exception ''boom''),
      \<lparr>world = (), fd_log = [Opened 0]\<rparr>)
   \<and> run_task [Proceed, Proceed, Proceed, Proceed]
      (one_file ''a.log'' (1, 5) (regular_file ''x\<newline>'')) False ''a.log''
      [failing (Exception ''boom'')] AwOpen \<lparr>world = (), fd_log = []\<rparr> =
     (Finished (Exception ''boom''), \<lparr>world = (), fd_log = [Opened 0, Closed 0]\<rparr>)
   \<and> run_task [Proceed, Proceed, Proceed, CancelBefore]
      (one_file ''a.log'' (1, 5) (regular_file ''x\<newline>'')) False ''a.log''
      [failing (Exception ''boom'')] AwOpen \<lparr>world = (), fd_log = []\<rparr> =
     (Finished CancelledError, \<lparr>world = (), fd_log = [Opened 0]\<rparr>)
   \<and> run_task [CancelAfter]
      (one_file ''a.log'' (1, 5) (regular_file ''x\<newline>'')) False ''a.log''
      [failing (Exception ''boom'')] AwOpen \<lparr>world = (), fd_log = []\<rparr> =
     (Finished CancelledError, \<lparr>world = (), fd_log = [Opened 0]\<rparr>)
   \<and> open_fds [Opened 0] = {0}"
  by (simp add: group_eval failing_def open_fds_def)

end
